theory Spec2Isabelle
  imports Complex_Main "HOL-Library.AList" "HOL-Library.Log_Nat"
begin

section \<open>Data model\<close>

text \<open>
  The repository keeps tasks and dependency edges in two database tables and derives
  warnings and a dashboard from them. The embedding follows
  \<^verbatim>\<open>BASED/repository/task.py\<close> and \<^verbatim>\<open>BASED/views/dashboard\<close>.

  A Python \<^verbatim>\<open>date\<close> is modelled by its ordinal, the value of \<^verbatim>\<open>toordinal()\<close>: day 1 is
  0001-01-01 and day 3652059 is 9999-12-31, the last date there is. Comparing two dates
  compares the ordinals, and \<^verbatim>\<open>(d1 - d2).days\<close> is their difference. \<open>is_date\<close> says
  that an integer is the ordinal of a date. A \<^verbatim>\<open>datetime\<close> is an opaque time stamp.
\<close>

type_synonym date = int
type_synonym datetime = int

definition is_date :: "int \<Rightarrow> bool" where
  "is_date d = (0 < d \<and> d \<le> 3652059)"

text \<open>
  The enumerations of \<^verbatim>\<open>task.py\<close>. The status \<^verbatim>\<open>done\<close> is \<open>status_done\<close> here, since
  \<^verbatim>\<open>done\<close> is a keyword of the proof language.
\<close>

datatype TaskStatusEnum = to_do | in_progress | status_done

datatype DependencyTypeEnum = depends_of | dependent_for | self

text \<open>The pydantic model \<^verbatim>\<open>Task\<close>; its field \<^verbatim>\<open>id\<close> is \<open>ident\<close> here.\<close>

record Task =
  ident :: int
  responsible_user_id :: int
  status :: TaskStatusEnum
  title :: "string option"
  description :: "string option"
  deadline :: date
  days_for_completion :: int
  actual_start_date :: "date option"
  actual_finish_date :: "date option"
  actual_completion_days :: "int option"
  is_archived :: bool
  created_timestamp :: datetime

text \<open>
  Modelled from the spec: \<^verbatim>\<open>BASED/views/dashboard/models.py\<close> is not among the sources.
  \<^verbatim>\<open>WarningTypeEnum\<close> has the six warning kinds the specification lists, and a
  \<^verbatim>\<open>WarningModel\<close> has the two fields the helper passes to its constructor.
\<close>

datatype WarningTypeEnum =
  start_soft | start_hard | finish_soft | finish_hard | late_deadline | crossed_deadline

record WarningModel =
  warning_type :: WarningTypeEnum
  warning_task_id :: int

text \<open>The exceptions a call can end with.\<close>

datatype error = TypeError | KeyError | ZeroDivisionError | OverflowError

section \<open>Floating-point numbers\<close>

text \<open>
  A Python \<^verbatim>\<open>float\<close> is modelled by the rational number it stands for. An arithmetic
  operation on floats returns the exact result rounded to the nearest number with a
  significand of 53 bits, ties going to the even significand: \<open>round_double\<close>.
  \<open>float_exponent x\<close> is the exponent \<open>e\<close> of a positive \<open>x\<close>, the integer with
  \<open>2 powi e \<le> x < 2 powi (e + 1)\<close>, computed from the bit lengths of the numerator and
  the denominator of \<open>x\<close>.

  The bounds of the exponent are not modelled. In the places where the code rounds,
  they change nothing. The product of an integer and a float, and the quotient of two
  list lengths, is rounded as here unless it overflows; and a day count that overflows
  is refused by \<^verbatim>\<open>timedelta\<close> with the same \<^verbatim>\<open>OverflowError\<close> as the huge finite value it
  is here.
\<close>

definition round_half_even :: "rat \<Rightarrow> int" where
  "round_half_even x =
     (let f = \<lfloor>x\<rfloor>; r = x - of_int f
      in if r < 1/2 then f else if r > 1/2 then f + 1 else if even f then f else f + 1)"

definition float_exponent :: "rat \<Rightarrow> int" where
  "float_exponent x =
     (let (p, q) = quotient_of x; d = bitlen p - bitlen q
      in if 2 powi d \<le> x then d else d - 1)"

definition round_double :: "rat \<Rightarrow> rat" where
  "round_double x =
     (if x = 0 then 0
      else let e = float_exponent \<bar>x\<bar> - 52;
               m = round_half_even (\<bar>x\<bar> / 2 powi e)
           in sgn x * of_int m * 2 powi e)"

section \<open>The warning engine\<close>

text \<open>
  \<^verbatim>\<open>timedelta(days=x).days\<close>, for an integer or a float \<open>x\<close>. The constructor splits \<open>x\<close>
  into its integral and its fractional part (\<^verbatim>\<open>modf\<close>, which truncates towards zero),
  multiplies the fractional part by the 86400000000 microseconds of a day in floating
  point, and rounds the sum to whole microseconds, ties to even. The days are the
  microseconds divided by those of a day, rounded down, and a magnitude of more than
  999999999 days raises \<^verbatim>\<open>OverflowError\<close>. For an integer \<open>x\<close> the fractional part is
  zero and the days are \<open>x\<close>.
\<close>

definition timedelta_microseconds :: "rat \<Rightarrow> int" where
  "timedelta_microseconds x =
     (let intpart = (if 0 \<le> x then \<lfloor>x\<rfloor> else \<lceil>x\<rceil>);
          fracpart = x - of_int intpart
      in round_half_even
           (of_int (intpart * 86400000000) + round_double (86400000000 * fracpart)))"

definition timedelta_days :: "rat \<Rightarrow> error + int" where
  "timedelta_days x =
     (let days = timedelta_microseconds x div 86400000000
      in if \<bar>days\<bar> > 999999999 then Inl OverflowError else Inr days)"

text \<open>
  \<^verbatim>\<open>d - timedelta(days=x)\<close> for a date \<open>d\<close>: the subtraction uses the days of the
  \<^verbatim>\<open>timedelta\<close> only, and raises \<^verbatim>\<open>OverflowError\<close> when the result is not a date.
\<close>

definition date_minus_timedelta :: "date \<Rightarrow> rat \<Rightarrow> error + date" where
  "date_minus_timedelta d x =
     (case timedelta_days x of
        Inl e \<Rightarrow> Inl e
      | Inr days \<Rightarrow> if is_date (d - days) then Inr (d - days) else Inl OverflowError)"

text \<open>
  \<^verbatim>\<open>get_warnings_list(task)\<close> of \<^verbatim>\<open>helpers.py\<close>. The two things the function reads
  from its environment are parameters: \<open>TIME_RESERVE_COEF\<close> (a constant of
  \<^verbatim>\<open>BASED/conf.py\<close>, which is not among the sources; the value of a finite float,
  a rational number) and
  \<open>current_date\<close>, the value of \<^verbatim>\<open>date.today()\<close>.

  \<open>status_warnings\<close> is the \<^verbatim>\<open>match task.status\<close> statement (lines 11 to 50) with the
  list it leaves in \<^verbatim>\<open>warnings\<close>. Each threshold is a date minus a \<^verbatim>\<open>timedelta\<close> and
  can raise \<^verbatim>\<open>OverflowError\<close>; the soft threshold is computed only when the hard one
  is not reached. The product with \<open>TIME_RESERVE_COEF\<close> is a floating-point product;
  its integer factor is a float as it stands, being at most 999999999 once the hard
  threshold has been computed from it. In the \<open>in_progress\<close> branch the first statement
  subtracts \<^verbatim>\<open>task.actual_start_date\<close> from a date, which raises \<^verbatim>\<open>TypeError\<close>
  when it is \<^verbatim>\<open>None\<close>; the difference of two dates is within the range of a
  \<^verbatim>\<open>timedelta\<close>. \<open>get_warnings_list\<close> is the whole function: the match statement, then
  the deadline check of lines 52 to 55.
\<close>

definition status_warnings :: "rat \<Rightarrow> date \<Rightarrow> Task \<Rightarrow> error + WarningModel list" where
  "status_warnings TIME_RESERVE_COEF current_date task =
     (case status task of
        to_do \<Rightarrow>
          (case date_minus_timedelta (deadline task) (of_int (days_for_completion task)) of
             Inl e \<Rightarrow> Inl e
           | Inr hard \<Rightarrow>
               if current_date \<ge> hard
               then Inr [\<lparr>warning_type = start_hard, warning_task_id = ident task\<rparr>]
               else
                 (case date_minus_timedelta (deadline task)
                         (round_double (of_int (days_for_completion task) * TIME_RESERVE_COEF)) of
                    Inl e \<Rightarrow> Inl e
                  | Inr soft \<Rightarrow>
                      if current_date \<ge> soft
                      then Inr [\<lparr>warning_type = start_soft, warning_task_id = ident task\<rparr>]
                      else Inr []))
      | in_progress \<Rightarrow>
          (case actual_start_date task of
             None \<Rightarrow> Inl TypeError
           | Some start \<Rightarrow>
               let days_in_work = current_date - start;
                   days_to_deadline = days_for_completion task - days_in_work;
                   days_to_deadline = (if days_to_deadline < 0 then 0 else days_to_deadline)
               in (case date_minus_timedelta (deadline task) (of_int days_to_deadline) of
                     Inl e \<Rightarrow> Inl e
                   | Inr hard \<Rightarrow>
                       if current_date \<ge> hard
                       then Inr [\<lparr>warning_type = finish_hard, warning_task_id = ident task\<rparr>]
                       else
                         (case date_minus_timedelta (deadline task)
                                 (round_double (of_int days_to_deadline * TIME_RESERVE_COEF)) of
                            Inl e \<Rightarrow> Inl e
                          | Inr soft \<Rightarrow>
                              if current_date \<ge> soft
                              then Inr [\<lparr>warning_type = finish_soft, warning_task_id = ident task\<rparr>]
                              else Inr [])))
      | status_done \<Rightarrow> Inr [])"

definition get_warnings_list :: "rat \<Rightarrow> date \<Rightarrow> Task \<Rightarrow> error + WarningModel list" where
  "get_warnings_list TIME_RESERVE_COEF current_date task =
     (case status_warnings TIME_RESERVE_COEF current_date task of
        Inl e \<Rightarrow> Inl e
      | Inr warnings \<Rightarrow>
          if current_date > deadline task
          then Inr (warnings @ [\<lparr>warning_type = late_deadline, warning_task_id = ident task\<rparr>])
          else Inr warnings)"

section \<open>The task repository\<close>

text \<open>
  The repository runs SQL statements on two tables. A table is the list of its rows, and
  an operation that writes takes the table and returns it updated, next to the value
  the Python method returns. The rows of \<^verbatim>\<open>task\<close> are the \<^typ>\<open>Task\<close> records the
  repository builds from them; the rows of \<^verbatim>\<open>task_depends\<close> are \<open>TaskDepends\<close>
  records. The declarations of the tables are in the migrations, which are not among
  the sources; what the statements below rely on is said at each of them.
\<close>

record TaskDepends =
  task_id :: int
  depends_task_id :: int
  depends_created_timestamp :: datetime

text \<open>
  The pydantic model \<^verbatim>\<open>TaskWithDependency\<close>; the fields it shares with \<^typ>\<open>Task\<close>
  carry the prefix \<open>twd\<close>.
\<close>

record TaskWithDependency =
  twd_id :: int
  dependency_type :: DependencyTypeEnum
  twd_responsible_user_id :: int
  twd_title :: "string option"
  twd_deadline :: date

text \<open>
  \<^verbatim>\<open>update_task_start_finish_dates\<close>: the \<^verbatim>\<open>update\<close> writes the three columns of
  every row whose \<^verbatim>\<open>id\<close> is the given one, and \<^verbatim>\<open>returning 1\<close> yields one row for
  each; the method returns whether \<^verbatim>\<open>fetchrow\<close> found one.
\<close>

definition update_task_start_finish_dates ::
  "Task list \<Rightarrow> int \<Rightarrow> date option \<Rightarrow> date option \<Rightarrow> bool \<times> Task list" where
  "update_task_start_finish_dates db tid new_start_date new_finish_date =
     (let completion_days =
            (case (new_start_date, new_finish_date) of
               (Some start, Some finish) \<Rightarrow> Some ((finish - start) + 1)
             | _ \<Rightarrow> None);
          row = filter (\<lambda>t. ident t = tid) db
      in (row \<noteq> [],
          map (\<lambda>t. if ident t = tid
                   then t\<lparr>actual_start_date := new_start_date,
                          actual_finish_date := new_finish_date,
                          actual_completion_days := completion_days\<rparr>
                   else t) db))"

text \<open>
  \<^verbatim>\<open>get_tasks_ordered_by_deadline\<close>: the rows that are not archived, ordered by
  deadline. SQL leaves the order of rows with equal deadlines open; the model keeps the
  order of the table among them.
\<close>

definition get_tasks_ordered_by_deadline :: "Task list \<Rightarrow> Task list" where
  "get_tasks_ordered_by_deadline db = sort_key deadline (filter (\<lambda>t. \<not> is_archived t) db)"

text \<open>The edge a row of \<^verbatim>\<open>task_depends\<close> stands for, and the edge set of the table.\<close>

definition edge_of :: "TaskDepends \<Rightarrow> int \<times> int" where
  "edge_of r = (task_id r, depends_task_id r)"

definition edges :: "TaskDepends list \<Rightarrow> (int \<times> int) set" where
  "edges db = set (map edge_of db)"

text \<open>
  \<^verbatim>\<open>add_task_depends\<close>: \<^verbatim>\<open>INSERT ... ON CONFLICT (task_id, depends_task_id) DO NOTHING\<close>.
  A row with the same pair is the conflict, and then nothing is written; otherwise the
  row is added, its time stamp filled in by the database (the parameter \<open>now\<close>). The
  method returns \<^verbatim>\<open>None\<close>, so the model returns the table only. The statement, and
  the method around it, check nothing else; what other constraints the table's
  declaration puts on a new row is not in the sources and not in the model.
\<close>

definition add_task_depends ::
  "datetime \<Rightarrow> TaskDepends list \<Rightarrow> int \<Rightarrow> int \<Rightarrow> TaskDepends list" where
  "add_task_depends now db id' depends_id =
     (if (id', depends_id) \<in> edges db then db
      else db @ [\<lparr>task_id = id', depends_task_id = depends_id,
                   depends_created_timestamp = now\<rparr>])"

text \<open>
  \<^verbatim>\<open>del_tasks_depends\<close>: \<^verbatim>\<open>DELETE ... RETURNING TRUE\<close> removes the rows with the given
  pair and yields one row for each; the method returns \<^verbatim>\<open>False\<close> when \<^verbatim>\<open>fetchrow\<close>
  found none and \<^verbatim>\<open>True\<close> otherwise.
\<close>

definition del_tasks_depends ::
  "TaskDepends list \<Rightarrow> int \<Rightarrow> int \<Rightarrow> bool \<times> TaskDepends list" where
  "del_tasks_depends db id' depends_id =
     (let row = filter (\<lambda>r. task_id r = id' \<and> depends_task_id r = depends_id) db
      in (if row = [] then False else True,
          filter (\<lambda>r. \<not> (task_id r = id' \<and> depends_task_id r = depends_id)) db))"

text \<open>
  \<^verbatim>\<open>get_all_task_dependencies\<close>: three \<^verbatim>\<open>select\<close>s joined by \<^verbatim>\<open>union\<close>, which
  drops duplicate rows, and one \<^verbatim>\<open>order by "deadline"\<close> over the whole result (rows with
  equal deadlines stay in the order of the union). \<open>select_task\<close> is the column list
  the three \<^verbatim>\<open>select\<close>s share.
\<close>

definition select_task :: "DependencyTypeEnum \<Rightarrow> Task \<Rightarrow> TaskWithDependency" where
  "select_task ty t =
     \<lparr>twd_id = ident t, dependency_type = ty,
      twd_responsible_user_id = responsible_user_id t,
      twd_title = title t, twd_deadline = deadline t\<rparr>"

definition get_all_task_dependencies ::
  "Task list \<Rightarrow> TaskDepends list \<Rightarrow> int \<Rightarrow> TaskWithDependency list" where
  "get_all_task_dependencies task task_depends tid =
     sort_key twd_deadline (remdups (
       [select_task depends_of t. d \<leftarrow> task_depends, t \<leftarrow> task,
          task_id d = ident t, depends_task_id d = tid] @
       [select_task dependent_for t. d \<leftarrow> task_depends, t \<leftarrow> task,
          depends_task_id d = ident t, task_id d = tid] @
       [select_task self t. t \<leftarrow> task, ident t = tid]))"

section \<open>The dashboard view\<close>

text \<open>
  Modelled from the spec: the response models of \<^verbatim>\<open>BASED/views/dashboard/models.py\<close>
  are not among the sources. Their fields are the keyword arguments the view passes to
  the constructors, with a prefix where a local variable of the view has the same
  name: \<^verbatim>\<open>id\<close>, \<^verbatim>\<open>title\<close>, \<^verbatim>\<open>deadline\<close>, \<^verbatim>\<open>responsible\<close> and \<^verbatim>\<open>warnings\<close> of
  \<^verbatim>\<open>DashboardTask\<close>, \<^verbatim>\<open>tasks\<close> of \<^verbatim>\<open>DashboardTasksByStatus\<close> and \<^verbatim>\<open>statuses\<close> of
  the response. The type \<open>'u\<close> is what the user repository returns for a user.
\<close>

record 'u DashboardTask =
  dashboard_task_id :: int
  dashboard_task_title :: "string option"
  dashboard_task_deadline :: date
  dashboard_task_responsible :: "'u option"
  dashboard_task_warnings :: "WarningModel list"

record 'u DashboardTasksByStatus =
  status_name :: TaskStatusEnum
  order_number :: int
  tasks_of_status :: "'u DashboardTask list"

record 'u GetDashboardTasksResponse =
  progress :: int
  response_statuses :: "'u DashboardTasksByStatus list"

text \<open>\<^verbatim>\<open>get_status_order_number\<close>, with the values of \<^verbatim>\<open>TaskStatusOrder\<close>.\<close>

fun get_status_order_number :: "TaskStatusEnum \<Rightarrow> int" where
  "get_status_order_number to_do = 1"
| "get_status_order_number in_progress = 2"
| "get_status_order_number status_done = 3"

text \<open>
  The loop of \<^verbatim>\<open>get_dashboard_tasks\<close> over the tasks. The dictionary \<^verbatim>\<open>statuses\<close> is an
  association list in insertion order: a task whose status is a key already is appended
  to that key's list, and a new key goes to the end. An exception of
  \<^verbatim>\<open>get_warnings_list\<close> ends the loop. \<open>get_by_id\<close> is the user repository's lookup.
\<close>

fun group_tasks ::
  "(int \<Rightarrow> 'u option) \<Rightarrow> rat \<Rightarrow> date \<Rightarrow> Task list \<Rightarrow>
   (TaskStatusEnum \<times> 'u DashboardTask list) list \<Rightarrow>
   error + (TaskStatusEnum \<times> 'u DashboardTask list) list" where
  "group_tasks get_by_id TIME_RESERVE_COEF current_date [] statuses = Inr statuses"
| "group_tasks get_by_id TIME_RESERVE_COEF current_date (task # tasks) statuses =
     (let responsible = get_by_id (responsible_user_id task)
      in case get_warnings_list TIME_RESERVE_COEF current_date task of
           Inl e \<Rightarrow> Inl e
         | Inr warnings_list \<Rightarrow>
             let dashboard_task =
                   \<lparr>dashboard_task_id = ident task, dashboard_task_title = title task,
                    dashboard_task_deadline = deadline task,
                    dashboard_task_responsible = responsible,
                    dashboard_task_warnings = warnings_list\<rparr>
             in group_tasks get_by_id TIME_RESERVE_COEF current_date tasks
                  (case map_of statuses (status task) of
                     Some ts \<Rightarrow> AList.update (status task) (ts @ [dashboard_task]) statuses
                   | None \<Rightarrow> AList.update (status task) [dashboard_task] statuses))"

text \<open>
  \<^verbatim>\<open>get_dashboard_tasks\<close> on the task table \<open>db\<close>. After the loop,
  \<^verbatim>\<open>statuses[TaskStatusEnum.done]\<close> raises \<^verbatim>\<open>KeyError\<close> when no task had the status
  \<open>done\<close>, and the division raises \<^verbatim>\<open>ZeroDivisionError\<close> when there are no tasks; the
  subscript is evaluated first. The division of the two lengths and the product with
  100 are floating-point operations, each rounded, and \<^verbatim>\<open>int\<close> of the non-negative
  result is its floor.
\<close>

definition get_dashboard_tasks ::
  "(int \<Rightarrow> 'u option) \<Rightarrow> rat \<Rightarrow> date \<Rightarrow> Task list \<Rightarrow>
   error + 'u GetDashboardTasksResponse" where
  "get_dashboard_tasks get_by_id TIME_RESERVE_COEF current_date db =
     (let tasks = get_tasks_ordered_by_deadline db
      in case group_tasks get_by_id TIME_RESERVE_COEF current_date tasks [] of
           Inl e \<Rightarrow> Inl e
         | Inr statuses \<Rightarrow>
             (case map_of statuses status_done of
                None \<Rightarrow> Inl KeyError
              | Some done_tasks \<Rightarrow>
                  if length tasks = 0 then Inl ZeroDivisionError
                  else Inr \<lparr>progress =
                              \<lfloor>round_double
                                 (round_double (of_nat (length done_tasks) / of_nat (length tasks))
                                  * 100)\<rfloor>,
                            response_statuses =
                              map (\<lambda>(status, tasks_by_status).
                                     \<lparr>status_name = status,
                                      order_number = get_status_order_number status,
                                      tasks_of_status = tasks_by_status\<rparr>) statuses\<rparr>))"

section \<open>Example data\<close>

text \<open>
  The tasks of the specification's scenarios: task A (\<open>to_do\<close>, deadline day 30, ten days
  for completion) and task B (\<open>in_progress\<close>, started on day 10, five days for
  completion, deadline day 20), the days being ordinals; and, for the tables, a task
  with a given id, status and deadline.
\<close>

definition example_task :: "int \<Rightarrow> TaskStatusEnum \<Rightarrow> date \<Rightarrow> Task" where
  "example_task i s d =
     \<lparr>ident = i, responsible_user_id = 1, status = s, title = None, description = None,
      deadline = d, days_for_completion = 3, actual_start_date = None,
      actual_finish_date = None, actual_completion_days = None, is_archived = False,
      created_timestamp = 0\<rparr>"

definition task_A :: Task where
  "task_A = (example_task 1 to_do 30)\<lparr>days_for_completion := 10\<rparr>"

definition task_B :: Task where
  "task_B = (example_task 2 in_progress 20)
              \<lparr>days_for_completion := 5, actual_start_date := Some 10\<rparr>"

section \<open>Properties of the floating-point rounding\<close>

text \<open>Rounding to the nearest integer keeps integers and is monotone.\<close>

lemma round_half_even_of_int [simp]: "round_half_even (of_int k) = k"
  by (simp add: round_half_even_def)

lemma round_half_even_cases:
  "round_half_even x = \<lfloor>x\<rfloor> \<or> round_half_even x = \<lfloor>x\<rfloor> + 1"
  by (simp add: round_half_even_def Let_def)

lemma round_half_even_mono:
  assumes "x \<le> y"
  shows "round_half_even x \<le> round_half_even y"
proof (cases "\<lfloor>x\<rfloor> = \<lfloor>y\<rfloor>")
  case True
  with assms show ?thesis
    by (auto simp: round_half_even_def Let_def)
next
  case False
  with assms have "\<lfloor>x\<rfloor> + 1 \<le> \<lfloor>y\<rfloor>"
    using floor_mono[OF assms] by linarith
  moreover have "round_half_even x \<le> \<lfloor>x\<rfloor> + 1"
    using round_half_even_cases[of x] by linarith
  moreover have "\<lfloor>y\<rfloor> \<le> round_half_even y"
    using round_half_even_cases[of y] by linarith
  ultimately show ?thesis by linarith
qed

text \<open>\<open>float_exponent\<close> is the exponent of a positive number.\<close>

lemma float_exponent_bounds:
  assumes "0 < x"
  shows "2 powi float_exponent x \<le> x" and "x < 2 powi (float_exponent x + 1)"
proof -
  obtain p q where pq: "quotient_of x = (p, q)"
    by (cases "quotient_of x")
  then have q: "0 < q" and x: "x = of_int p / of_int q"
    by (simp_all add: quotient_of_denom_pos quotient_of_div)
  with assms have p: "0 < p"
    by (simp add: zero_less_divide_iff)
  define d where "d = bitlen p - bitlen q"
  from bitlen_bounds[OF p] bitlen_bounds[OF q]
  have bp: "2 ^ nat (bitlen p - 1) \<le> p" "p < 2 ^ nat (bitlen p)"
    and bq: "2 ^ nat (bitlen q - 1) \<le> q" "q < 2 ^ nat (bitlen q)"
    by simp_all
  have p1: "1 \<le> bitlen p" and q1: "1 \<le> bitlen q"
    using p q bitlen_eq_zero_iff[of p] bitlen_eq_zero_iff[of q] bitlen_nonneg[of p] bitlen_nonneg[of q]
    by linarith+
  have conv: "(2::rat) powi k = of_int (2 ^ nat k)" if "0 \<le> k" for k
    using that by (simp add: power_int_def)
  have P1: "(2::rat) powi (bitlen p - 1) \<le> of_int p"
  proof -
    have "0 \<le> bitlen p - 1" using p1 by simp
    from conv[OF this] bp(1) show ?thesis by (simp only: of_int_le_iff)
  qed
  have P2: "of_int p < (2::rat) powi (bitlen p)"
  proof -
    have "0 \<le> bitlen p" using p1 by simp
    from conv[OF this] bp(2) show ?thesis by (simp only: of_int_less_iff)
  qed
  have Q1: "(2::rat) powi (bitlen q - 1) \<le> of_int q"
  proof -
    have "0 \<le> bitlen q - 1" using q1 by simp
    from conv[OF this] bq(1) show ?thesis by (simp only: of_int_le_iff)
  qed
  have Q2: "of_int q < (2::rat) powi (bitlen q)"
  proof -
    have "0 \<le> bitlen q" using q1 by simp
    from conv[OF this] bq(2) show ?thesis by (simp only: of_int_less_iff)
  qed
  have qpos: "(0::rat) < of_int q" using q by simp
  have ppos: "(0::rat) < of_int p" using p by simp
  have lo: "2 powi (d - 1) < x"
  proof -
    have "(2::rat) powi (d - 1) = 2 powi (bitlen p - 1) / 2 powi (bitlen q)"
      unfolding d_def by (subst power_int_diff[symmetric]) (simp_all add: algebra_simps)
    also have "\<dots> < of_int p / of_int q"
      by (rule frac_less2) (use P1 Q2 qpos in simp_all)
    finally show ?thesis by (simp add: x)
  qed
  have hi: "x < 2 powi (d + 1)"
  proof -
    have "of_int p / of_int q < (2::rat) powi (bitlen p) / 2 powi (bitlen q - 1)"
      by (rule frac_less) (use P2 Q1 ppos in simp_all)
    also have "\<dots> = 2 powi (d + 1)"
      unfolding d_def by (subst power_int_diff[symmetric]) (simp_all add: algebra_simps)
    finally show ?thesis by (simp add: x)
  qed
  have e: "float_exponent x = (if 2 powi d \<le> x then d else d - 1)"
    by (simp add: float_exponent_def pq d_def)
  show "2 powi float_exponent x \<le> x"
    using lo e by (auto simp: less_imp_le)
  show "x < 2 powi (float_exponent x + 1)"
    using hi e by auto
qed

text \<open>
  Rounding to a float is symmetric and monotone, and it keeps the integers of up to 52
  bits, which are floats.
\<close>

lemma round_double_pos:
  assumes "0 < x"
  shows "round_double x =
           of_int (round_half_even (x / 2 powi (float_exponent x - 52))) * 2 powi (float_exponent x - 52)"
  using assms by (simp add: round_double_def Let_def)

lemma round_double_minus: "round_double (- x) = - round_double x"
  by (simp add: round_double_def Let_def)

lemma round_double_zero [simp]: "round_double 0 = 0"
  by (simp add: round_double_def)

lemma round_double_pos_bounds:
  assumes "0 < x"
  shows "2 powi float_exponent x \<le> round_double x"
    and "round_double x \<le> 2 powi (float_exponent x + 1)"
proof -
  define E where "E = float_exponent x"
  define s :: rat where "s = 2 powi (E - 52)"
  have s: "0 < s" by (simp add: s_def)
  from float_exponent_bounds[OF assms]
  have lo: "2 powi E \<le> x" and hi: "x < 2 powi (E + 1)"
    by (simp_all add: E_def)
  have "(2::rat) powi E / s = 2 powi 52"
    unfolding s_def by (subst power_int_diff[symmetric]) simp_all
  then have l52: "(2::rat) powi E = of_int (2 ^ 52) * s"
    using s by (simp add: field_simps)
  have "(2::rat) powi (E + 1) / s = 2 powi 53"
    unfolding s_def by (subst power_int_diff[symmetric]) simp_all
  then have l53: "(2::rat) powi (E + 1) = of_int (2 ^ 53) * s"
    using s by (simp add: field_simps)
  have "of_int (2 ^ 52) \<le> x / s"
    using lo s unfolding l52 by (simp add: field_simps)
  from round_half_even_mono[OF this]
  have m_lo: "2 ^ 52 \<le> round_half_even (x / s)"
    by (simp only: round_half_even_of_int)
  have "x / s \<le> of_int (2 ^ 53)"
    using hi s unfolding l53 by (simp add: field_simps)
  from round_half_even_mono[OF this]
  have m_hi: "round_half_even (x / s) \<le> 2 ^ 53"
    by (simp only: round_half_even_of_int)
  have rd: "round_double x = of_int (round_half_even (x / s)) * s"
    using round_double_pos[OF assms] by (simp add: E_def s_def)
  have "of_int (2 ^ 52) * s \<le> of_int (round_half_even (x / s)) * s"
    using m_lo s by (intro mult_right_mono) (simp_all only: of_int_le_iff less_imp_le)
  then show "2 powi float_exponent x \<le> round_double x"
    using rd l52 by (simp add: E_def)
  have "of_int (round_half_even (x / s)) * s \<le> of_int (2 ^ 53) * s"
    using m_hi s by (intro mult_right_mono) (simp_all only: of_int_le_iff less_imp_le)
  then show "round_double x \<le> 2 powi (float_exponent x + 1)"
    using rd l53 by (simp add: E_def)
qed

lemma round_double_nonneg: "0 \<le> x \<Longrightarrow> 0 \<le> round_double x"
proof (cases "x = 0")
  case False
  assume "0 \<le> x"
  with False have "0 < x" by simp
  have "(0::rat) \<le> 2 powi float_exponent x" by simp
  also note round_double_pos_bounds(1)[OF \<open>0 < x\<close>]
  finally show ?thesis .
qed simp

lemma round_double_mono_pos:
  assumes "0 < x" and "x \<le> y"
  shows "round_double x \<le> round_double y"
proof -
  have y: "0 < y" using assms by simp
  define Ex where "Ex = float_exponent x"
  define Ey where "Ey = float_exponent y"
  from float_exponent_bounds[OF assms(1)] float_exponent_bounds[OF y]
  have bx: "2 powi Ex \<le> x" "x < 2 powi (Ex + 1)" and by': "2 powi Ey \<le> y" "y < 2 powi (Ey + 1)"
    by (simp_all add: Ex_def Ey_def)
  have lt: "(2::rat) powi Ex < 2 powi (Ey + 1)"
    using bx(1) assms(2) by'(2) by linarith
  have le: "Ex \<le> Ey"
  proof (rule ccontr)
    assume "\<not> Ex \<le> Ey"
    then have "Ey + 1 \<le> Ex" by simp
    then have "(2::rat) powi (Ey + 1) \<le> 2 powi Ex"
      by (intro power_int_increasing) simp_all
    with lt show False by simp
  qed
  show ?thesis
  proof (cases "Ex = Ey")
    case True
    have s: "(0::rat) < 2 powi (Ey - 52)" by simp
    have "x / 2 powi (Ey - 52) \<le> y / 2 powi (Ey - 52)"
      using assms(2) s by (simp add: divide_right_mono)
    from round_half_even_mono[OF this]
    have "of_int (round_half_even (x / 2 powi (Ey - 52))) * (2::rat) powi (Ey - 52)
            \<le> of_int (round_half_even (y / 2 powi (Ey - 52))) * 2 powi (Ey - 52)"
      by (intro mult_right_mono) simp_all
    then show ?thesis
      using round_double_pos[OF assms(1)] round_double_pos[OF y] True
      by (simp add: Ex_def Ey_def)
  next
    case False
    with le have "Ex + 1 \<le> Ey" by simp
    then have "(2::rat) powi (Ex + 1) \<le> 2 powi Ey"
      by (intro power_int_increasing) simp_all
    with round_double_pos_bounds(2)[OF assms(1)] round_double_pos_bounds(1)[OF y]
    show ?thesis by (simp add: Ex_def Ey_def)
  qed
qed

lemma round_double_mono:
  assumes "x \<le> y"
  shows "round_double x \<le> round_double y"
proof -
  consider "0 < x" | "x \<le> 0" "0 \<le> y" | "y < 0" by linarith
  then show ?thesis
  proof cases
    case 1
    then show ?thesis using assms by (rule round_double_mono_pos)
  next
    case 2
    have "round_double x \<le> 0"
      using round_double_nonneg[of "- x"] 2(1) by (simp add: round_double_minus)
    also have "0 \<le> round_double y"
      using 2(2) by (rule round_double_nonneg)
    finally show ?thesis .
  next
    case 3
    then have "0 < - y" and "- y \<le> - x" using assms by simp_all
    from round_double_mono_pos[OF this] show ?thesis
      by (simp add: round_double_minus)
  qed
qed

lemma round_double_of_int:
  assumes "\<bar>n\<bar> \<le> 2 ^ 52"
  shows "round_double (of_int n) = of_int n"
proof -
  have pos: "round_double (of_int k) = of_int k" if "0 < k" and "k \<le> 2 ^ 52" for k :: int
  proof -
    have k: "(0::rat) < of_int k" using that by simp
    define E where "E = float_exponent (of_int k)"
    from float_exponent_bounds(1)[OF k] have "2 powi E \<le> (of_int k :: rat)"
      by (simp add: E_def)
    also have "(of_int k :: rat) \<le> of_int (2 ^ 52)"
      using that(2) by (simp only: of_int_le_iff)
    also have "\<dots> = 2 powi 52" by simp
    finally have pw: "(2::rat) powi E \<le> 2 powi 52" .
    have "E \<le> 52"
    proof (rule ccontr)
      assume "\<not> E \<le> 52"
      then have "52 < E" by simp
      then have "(2::rat) powi 52 < 2 powi E"
        by (intro power_int_strict_increasing) simp_all
      with pw show False by simp
    qed
    define j where "j = nat (52 - E)"
    have s: "(2::rat) powi (E - 52) = 1 / of_int (2 ^ j)"
      using \<open>E \<le> 52\<close> by (simp add: j_def power_int_def field_simps)
    have "of_int k / (2::rat) powi (E - 52) = of_int (k * 2 ^ j)"
      by (simp add: s)
    then have "round_half_even (of_int k / 2 powi (E - 52)) = k * 2 ^ j"
      by (simp only: round_half_even_of_int)
    then show ?thesis
      using round_double_pos[OF k] by (simp add: E_def[symmetric] s)
  qed
  consider "0 < n" | "n = 0" | "n < 0" by linarith
  then show ?thesis
  proof cases
    case 1
    with assms show ?thesis by (intro pos) simp_all
  next
    case 2
    then show ?thesis by simp
  next
    case 3
    with assms have "round_double (of_int (- n)) = of_int (- n)"
      by (intro pos) simp_all
    then show ?thesis
      by (simp add: round_double_minus)
  qed
qed

text \<open>
  The microseconds of a \<^verbatim>\<open>timedelta\<close>: a whole number of days has its exact count, and a
  day count on one side of a whole number has its count on the same side.
\<close>

lemma timedelta_microseconds_of_int [simp]:
  "timedelta_microseconds (of_int n) = n * 86400000000"
proof -
  have "round_half_even (of_int (n * 86400000000)) = n * 86400000000"
    by (rule round_half_even_of_int)
  then show ?thesis
    by (simp add: timedelta_microseconds_def)
qed

lemma timedelta_microseconds_lower:
  assumes "of_int k \<le> x"
  shows "k * 86400000000 \<le> timedelta_microseconds x"
proof -
  define i where "i = (if 0 \<le> x then \<lfloor>x\<rfloor> else \<lceil>x\<rceil>)"
  define w where "w = round_double (86400000000 * (x - of_int i))"
  have td: "timedelta_microseconds x = round_half_even (of_int (i * 86400000000) + w)"
    unfolding timedelta_microseconds_def i_def w_def Let_def ..
  have "(of_int k :: rat) \<le> of_int \<lceil>x\<rceil>"
    using assms le_of_int_ceiling[of x] by (rule order_trans)
  then have "k \<le> \<lceil>x\<rceil>" by (simp only: of_int_le_iff)
  then have ik: "k \<le> i"
    using assms by (simp add: i_def le_floor_iff)
  have frac: "- 1 < x - of_int i"
    unfolding i_def by (auto; linarith)
  have "of_int (k * 86400000000) \<le> of_int (i * 86400000000) + w"
  proof (cases "i = k")
    case True
    then have "0 \<le> 86400000000 * (x - of_int i)" using assms by simp
    then have "round_double 0 \<le> w"
      unfolding w_def by (rule round_double_mono)
    then show ?thesis using True by simp
  next
    case False
    with ik have "k + 1 \<le> i" by simp
    then have i1: "of_int (k * 86400000000) + (86400000000::rat) \<le> of_int (i * 86400000000)"
      by (simp flip: of_int_add of_int_numeral of_int_mult only: of_int_le_iff)
    have "of_int (- 86400000000) \<le> 86400000000 * (x - of_int i)"
      using frac by simp
    then have "round_double (of_int (- 86400000000)) \<le> w"
      unfolding w_def by (rule round_double_mono)
    moreover have "round_double (of_int (- 86400000000)) = of_int (- 86400000000)"
      by (rule round_double_of_int) simp
    ultimately have "- 86400000000 \<le> w" by simp
    with i1 show ?thesis by linarith
  qed
  from round_half_even_mono[OF this] show ?thesis
    unfolding td by (simp only: round_half_even_of_int)
qed

lemma timedelta_microseconds_upper:
  assumes "x \<le> of_int k"
  shows "timedelta_microseconds x \<le> k * 86400000000"
proof -
  define i where "i = (if 0 \<le> x then \<lfloor>x\<rfloor> else \<lceil>x\<rceil>)"
  define w where "w = round_double (86400000000 * (x - of_int i))"
  have td: "timedelta_microseconds x = round_half_even (of_int (i * 86400000000) + w)"
    unfolding timedelta_microseconds_def i_def w_def Let_def ..
  have "(of_int \<lfloor>x\<rfloor> :: rat) \<le> of_int k"
    using of_int_floor_le[of x] assms by (rule order_trans)
  then have "\<lfloor>x\<rfloor> \<le> k" by (simp only: of_int_le_iff)
  then have ik: "i \<le> k"
    using assms by (simp add: i_def ceiling_le_iff)
  have frac: "x - of_int i < 1"
    unfolding i_def by (auto; linarith)
  have "of_int (i * 86400000000) + w \<le> of_int (k * 86400000000)"
  proof (cases "i = k")
    case True
    then have "86400000000 * (x - of_int i) \<le> 0" using assms by simp
    then have "w \<le> round_double 0"
      unfolding w_def by (rule round_double_mono)
    then show ?thesis using True by simp
  next
    case False
    with ik have "i + 1 \<le> k" by simp
    then have i1: "of_int (i * 86400000000) + (86400000000::rat) \<le> of_int (k * 86400000000)"
      by (simp flip: of_int_add of_int_numeral of_int_mult only: of_int_le_iff)
    have "86400000000 * (x - of_int i) \<le> of_int 86400000000"
      using frac by simp
    then have "w \<le> round_double (of_int 86400000000)"
      unfolding w_def by (rule round_double_mono)
    moreover have "round_double (of_int 86400000000) = of_int 86400000000"
      by (rule round_double_of_int) simp
    ultimately have "w \<le> 86400000000" by simp
    with i1 show ?thesis by linarith
  qed
  from round_half_even_mono[OF this] show ?thesis
    unfolding td by (simp only: round_half_even_of_int)
qed

section \<open>Properties of the warning engine\<close>

text \<open>The days of a \<^verbatim>\<open>timedelta\<close>, where the constructor returns one.\<close>

lemma timedelta_days_of_int:
  "timedelta_days (of_int n) = (if \<bar>n\<bar> > 999999999 then Inl OverflowError else Inr n)"
  by (simp add: timedelta_days_def)

lemma timedelta_days_lower:
  assumes "timedelta_days x = Inr K" and "of_int k \<le> x"
  shows "k \<le> K"
proof -
  have "k * 86400000000 div 86400000000 \<le> timedelta_microseconds x div 86400000000"
    using timedelta_microseconds_lower[OF assms(2)] by (intro zdiv_mono1) simp_all
  with assms(1) show ?thesis
    by (simp add: timedelta_days_def Let_def split: if_splits)
qed

lemma timedelta_days_upper:
  assumes "timedelta_days x = Inr K" and "x \<le> of_int k"
  shows "K \<le> k"
proof -
  have "timedelta_microseconds x div 86400000000 \<le> k * 86400000000 div 86400000000"
    using timedelta_microseconds_upper[OF assms(2)] by (intro zdiv_mono1) simp_all
  with assms(1) show ?thesis
    by (simp add: timedelta_days_def Let_def split: if_splits)
qed

lemma timedelta_days_range:
  "timedelta_days x = Inr K \<Longrightarrow> \<bar>K\<bar> \<le> 999999999"
  by (auto simp: timedelta_days_def Let_def split: if_splits)

text \<open>
  The days of a rounded product lie between the floor and the ceiling of the exact
  product.
\<close>

lemma two_52: "(2::int) ^ 52 = 4503599627370496"
  by simp

lemma product_days_lower:
  assumes "timedelta_days (round_double z) = Inr K"
  shows "\<lfloor>z\<rfloor> \<le> K"
proof -
  consider "\<lfloor>z\<rfloor> < - (2 ^ 52)" | "\<bar>\<lfloor>z\<rfloor>\<bar> \<le> 2 ^ 52" | "2 ^ 52 < \<lfloor>z\<rfloor>"
    by linarith
  then show ?thesis
  proof cases
    case 1
    with timedelta_days_range[OF assms] show ?thesis
      unfolding two_52 by linarith
  next
    case 2
    have "round_double (of_int \<lfloor>z\<rfloor>) \<le> round_double z"
      by (rule round_double_mono) simp
    then have "of_int \<lfloor>z\<rfloor> \<le> round_double z"
      by (simp only: round_double_of_int[OF 2])
    with assms show ?thesis by (rule timedelta_days_lower)
  next
    case 3
    then have "of_int (2 ^ 52) \<le> z"
      by (simp add: le_floor_iff)
    then have "round_double (of_int (2 ^ 52)) \<le> round_double z"
      by (rule round_double_mono)
    moreover have "round_double (of_int (2 ^ 52)) = of_int (2 ^ 52)"
      by (rule round_double_of_int) simp
    ultimately have "of_int (2 ^ 52) \<le> round_double z" by simp
    with assms have "2 ^ 52 \<le> K" by (rule timedelta_days_lower)
    with timedelta_days_range[OF assms] show ?thesis
      unfolding two_52 by linarith
  qed
qed

lemma product_days_upper:
  assumes "timedelta_days (round_double z) = Inr K"
  shows "K \<le> \<lceil>z\<rceil>"
proof -
  consider "\<lceil>z\<rceil> < - (2 ^ 52)" | "\<bar>\<lceil>z\<rceil>\<bar> \<le> 2 ^ 52" | "2 ^ 52 < \<lceil>z\<rceil>"
    by linarith
  then show ?thesis
  proof cases
    case 1
    then have "z \<le> of_int (- (2 ^ 52))"
      by (simp add: ceiling_le_iff)
    then have "round_double z \<le> round_double (of_int (- (2 ^ 52)))"
      by (rule round_double_mono)
    moreover have "round_double (of_int (- (2 ^ 52))) = of_int (- (2 ^ 52))"
      by (rule round_double_of_int) simp
    ultimately have "round_double z \<le> of_int (- (2 ^ 52))" by simp
    with assms have "K \<le> - (2 ^ 52)" by (rule timedelta_days_upper)
    with timedelta_days_range[OF assms] show ?thesis
      unfolding two_52 by linarith
  next
    case 2
    have "round_double z \<le> round_double (of_int \<lceil>z\<rceil>)"
      by (rule round_double_mono) simp
    then have "round_double z \<le> of_int \<lceil>z\<rceil>"
      by (simp only: round_double_of_int[OF 2])
    with assms show ?thesis by (rule timedelta_days_upper)
  next
    case 3
    with timedelta_days_range[OF assms] show ?thesis
      unfolding two_52 by linarith
  qed
qed

text \<open>A product whose floor and ceiling are small has its days.\<close>

lemma product_days_returns:
  assumes "- 999999999 \<le> \<lfloor>z\<rfloor>" and "\<lceil>z\<rceil> \<le> 999999999"
  shows "\<exists>K. timedelta_days (round_double z) = Inr K"
proof -
  define D where "D = timedelta_microseconds (round_double z) div 86400000000"
  have fl: "\<bar>\<lfloor>z\<rfloor>\<bar> \<le> 2 ^ 52" and ce: "\<bar>\<lceil>z\<rceil>\<bar> \<le> 2 ^ 52"
    using assms floor_le_ceiling[of z] unfolding two_52 by linarith+
  have "round_double (of_int \<lfloor>z\<rfloor>) \<le> round_double z"
    by (rule round_double_mono) simp
  then have "of_int \<lfloor>z\<rfloor> \<le> round_double z"
    by (simp only: round_double_of_int[OF fl])
  from timedelta_microseconds_lower[OF this]
  have "\<lfloor>z\<rfloor> * 86400000000 div 86400000000 \<le> D"
    unfolding D_def by (intro zdiv_mono1) simp_all
  then have lo: "\<lfloor>z\<rfloor> \<le> D" by simp
  have "round_double z \<le> round_double (of_int \<lceil>z\<rceil>)"
    by (rule round_double_mono) simp
  then have "round_double z \<le> of_int \<lceil>z\<rceil>"
    by (simp only: round_double_of_int[OF ce])
  from timedelta_microseconds_upper[OF this]
  have "D \<le> \<lceil>z\<rceil> * 86400000000 div 86400000000"
    unfolding D_def by (intro zdiv_mono1) simp_all
  then have hi: "D \<le> \<lceil>z\<rceil>" by simp
  from lo hi assms have "\<not> \<bar>D\<bar> > 999999999" by linarith
  then show ?thesis
    by (simp add: timedelta_days_def D_def[symmetric])
qed

text \<open>
  The two thresholds of a branch: the deadline minus the days of the branch, and the
  deadline minus the days of their product with the coefficient.
\<close>

lemma hard_threshold_value:
  "date_minus_timedelta d (of_int n) = Inr t \<Longrightarrow> t = d - n"
  by (auto simp: date_minus_timedelta_def timedelta_days_of_int split: if_splits)

lemma hard_threshold_returns:
  assumes "is_date d" and "0 \<le> n" and "0 < d - n"
  shows "date_minus_timedelta d (of_int n) = Inr (d - n)"
  using assms by (simp add: date_minus_timedelta_def timedelta_days_of_int is_date_def)

lemma hard_threshold_fails:
  assumes "is_date d" and "d - n \<le> 0"
  shows "date_minus_timedelta d (of_int n) = Inl OverflowError"
  using assms by (simp add: date_minus_timedelta_def timedelta_days_of_int is_date_def)

lemma soft_threshold_bounds:
  assumes "date_minus_timedelta d (round_double z) = Inr t"
  shows "d - \<lceil>z\<rceil> \<le> t" and "t \<le> d - \<lfloor>z\<rfloor>"
proof -
  from assms obtain K where K: "timedelta_days (round_double z) = Inr K" and t: "t = d - K"
    by (auto simp: date_minus_timedelta_def split: sum.splits if_splits)
  from product_days_upper[OF K] t show "d - \<lceil>z\<rceil> \<le> t" by simp
  from product_days_lower[OF K] t show "t \<le> d - \<lfloor>z\<rfloor>" by simp
qed

lemma soft_threshold_returns:
  assumes "is_date d" and "0 \<le> z" and "0 < d - \<lceil>z\<rceil>"
  shows "\<exists>t. date_minus_timedelta d (round_double z) = Inr t"
proof -
  have d: "0 < d" "d \<le> 3652059"
    using assms(1) by (simp_all add: is_date_def)
  have "(0::int) \<le> \<lfloor>z\<rfloor>"
    using assms(2) by simp
  then have z0: "- 999999999 \<le> \<lfloor>z\<rfloor>" and z0': "0 \<le> \<lfloor>z\<rfloor>"
    by linarith+
  have zc: "\<lceil>z\<rceil> \<le> 999999999"
    using d assms(3) by linarith
  from product_days_returns[OF z0 zc]
  obtain K where K: "timedelta_days (round_double z) = Inr K" by auto
  from product_days_lower[OF K] product_days_upper[OF K] z0' d assms(3)
  have "0 < d - K \<and> d - K \<le> 3652059" by linarith
  then have "is_date (d - K)" by (simp only: is_date_def)
  with K show ?thesis
    by (simp add: date_minus_timedelta_def)
qed

text \<open>The two branches of the match statement, unfolded.\<close>

lemma status_warnings_to_do:
  assumes "status task = to_do"
  shows "status_warnings c today task =
     (case date_minus_timedelta (deadline task) (of_int (days_for_completion task)) of
        Inl e \<Rightarrow> Inl e
      | Inr hard \<Rightarrow>
          if hard \<le> today
          then Inr [\<lparr>warning_type = start_hard, warning_task_id = ident task\<rparr>]
          else (case date_minus_timedelta (deadline task)
                       (round_double (of_int (days_for_completion task) * c)) of
                  Inl e \<Rightarrow> Inl e
                | Inr soft \<Rightarrow>
                    if soft \<le> today
                    then Inr [\<lparr>warning_type = start_soft, warning_task_id = ident task\<rparr>]
                    else Inr []))"
  using assms by (simp add: status_warnings_def)

lemma status_warnings_in_progress:
  assumes "status task = in_progress" and "actual_start_date task = Some start"
  shows "status_warnings c today task =
     (case date_minus_timedelta (deadline task)
             (of_int (max (days_for_completion task - (today - start)) 0)) of
        Inl e \<Rightarrow> Inl e
      | Inr hard \<Rightarrow>
          if hard \<le> today
          then Inr [\<lparr>warning_type = finish_hard, warning_task_id = ident task\<rparr>]
          else (case date_minus_timedelta (deadline task)
                       (round_double
                          (of_int (max (days_for_completion task - (today - start)) 0) * c)) of
                  Inl e \<Rightarrow> Inl e
                | Inr soft \<Rightarrow>
                    if soft \<le> today
                    then Inr [\<lparr>warning_type = finish_soft, warning_task_id = ident task\<rparr>]
                    else Inr []))"
proof -
  have m: "(if days_for_completion task - (today - start) < 0 then 0
            else days_for_completion task - (today - start))
           = max (days_for_completion task - (today - start)) 0"
    by (simp add: max_def)
  show ?thesis
    unfolding m[symmetric] status_warnings_def Let_def
    by (simp only: assms TaskStatusEnum.case option.case)
qed

lemma branch_cases:
  assumes "(case date_minus_timedelta d (of_int n) of
              Inl e \<Rightarrow> Inl e
            | Inr hard \<Rightarrow>
                if hard \<le> today then Inr [h]
                else (case date_minus_timedelta d (round_double z) of
                        Inl e \<Rightarrow> Inl e
                      | Inr soft \<Rightarrow> if soft \<le> today then Inr [s] else Inr []))
           = (Inr sw :: error + WarningModel list)"
  obtains (hard) "d - n \<le> today" and "sw = [h]"
    | (soft) t where "today < d - n" and "date_minus_timedelta d (round_double z) = Inr t"
        and "t \<le> today" and "sw = [s]"
    | (none) t where "today < d - n" and "date_minus_timedelta d (round_double z) = Inr t"
        and "today < t" and "sw = []"
proof -
  from assms obtain t1 where t1: "date_minus_timedelta d (of_int n) = Inr t1"
    by (cases "date_minus_timedelta d (of_int n)") simp_all
  then have t1': "t1 = d - n" by (rule hard_threshold_value)
  show thesis
  proof (cases "t1 \<le> today")
    case True
    with assms t1 t1' hard show thesis by simp
  next
    case False
    with assms t1 obtain t where t: "date_minus_timedelta d (round_double z) = Inr t"
      by (cases "date_minus_timedelta d (round_double z)") simp_all
    show thesis
    proof (cases "t \<le> today")
      case True
      with assms t1 t1' t False soft show thesis by simp
    next
      case False': False
      with assms t1 t1' t False none show thesis by simp
    qed
  qed
qed

lemma status_warnings_shape:
  assumes "status_warnings c today task = Inr sw"
  shows "sw = [] \<or> (\<exists>ty \<in> {start_soft, start_hard, finish_soft, finish_hard}.
            sw = [\<lparr>warning_type = ty, warning_task_id = ident task\<rparr>])"
proof (cases "status task")
  case to_do
  from assms[unfolded status_warnings_to_do[OF to_do]] show ?thesis
    by (cases rule: branch_cases) simp_all
next
  case in_progress
  with assms obtain start where s: "actual_start_date task = Some start"
    by (cases "actual_start_date task") (simp_all add: status_warnings_def)
  from assms[unfolded status_warnings_in_progress[OF in_progress s]] show ?thesis
    by (cases rule: branch_cases) simp_all
next
  case status_done
  with assms show ?thesis
    by (simp add: status_warnings_def)
qed

lemma get_warnings_list_Inr:
  assumes "get_warnings_list c today task = Inr ws"
  shows "\<exists>sw. status_warnings c today task = Inr sw \<and>
           ws = sw @ (if today > deadline task
                      then [\<lparr>warning_type = late_deadline, warning_task_id = ident task\<rparr>]
                      else [])"
  using assms by (auto simp: get_warnings_list_def split: sum.splits if_splits)

text \<open>
  A branch whose thresholds are dates returns: \<open>n\<close> is the day count of the branch,
  \<open>days_for_completion\<close> or \<open>days_to_deadline\<close>.
\<close>

lemma branch_returns:
  assumes "is_date d" and "0 \<le> n" and "0 \<le> c" and "0 < d - n" and "0 < d - \<lceil>of_int n * c\<rceil>"
  shows "\<exists>sw. (case date_minus_timedelta d (of_int n) of
                 Inl e \<Rightarrow> Inl e
               | Inr hard \<Rightarrow>
                   if hard \<le> today then Inr [h]
                   else (case date_minus_timedelta d (round_double (of_int n * c)) of
                           Inl e \<Rightarrow> Inl e
                         | Inr soft \<Rightarrow> if soft \<le> today then Inr [s] else Inr []))
              = (Inr sw :: error + WarningModel list)"
proof -
  have "0 \<le> of_int n * c" using assms(2,3) by simp
  from soft_threshold_returns[OF assms(1) this assms(5)]
  obtain t where "date_minus_timedelta d (round_double (of_int n * c)) = Inr t" by blast
  then show ?thesis
    by (simp add: hard_threshold_returns[OF assms(1,2,4)])
qed

lemma get_warnings_list_returns:
  assumes "is_date (deadline task)" and "0 \<le> c"
    and "status task = to_do \<longrightarrow>
           0 \<le> days_for_completion task \<and>
           0 < deadline task - days_for_completion task \<and>
           0 < deadline task - \<lceil>of_int (days_for_completion task) * c\<rceil>"
    and "status task = in_progress \<longrightarrow>
           (\<exists>start. actual_start_date task = Some start \<and>
              0 < deadline task - max (days_for_completion task - (today - start)) 0 \<and>
              0 < deadline task
                    - \<lceil>of_int (max (days_for_completion task - (today - start)) 0) * c\<rceil>)"
  shows "\<exists>ws. get_warnings_list c today task = Inr ws"
proof -
  have "\<exists>sw. status_warnings c today task = Inr sw"
  proof (cases "status task")
    case to_do
    with assms(3) branch_returns[OF assms(1) _ assms(2)] show ?thesis
      unfolding status_warnings_to_do[OF to_do] by blast
  next
    case in_progress
    with assms(4) obtain start where s: "actual_start_date task = Some start"
      and t: "0 < deadline task - max (days_for_completion task - (today - start)) 0"
         "0 < deadline task
                    - \<lceil>of_int (max (days_for_completion task - (today - start)) 0) * c\<rceil>"
      by blast
    have "0 \<le> max (days_for_completion task - (today - start)) 0" by simp
    from branch_returns[OF assms(1) this assms(2) t] show ?thesis
      unfolding status_warnings_in_progress[OF in_progress s] by blast
  next
    case status_done
    then show ?thesis by (simp add: status_warnings_def)
  qed
  then show ?thesis
    by (auto simp: get_warnings_list_def)
qed

text \<open>
  With a coefficient of at most one the soft threshold is never earlier than the hard
  one, which is tested first: no soft warning is emitted then.
\<close>

lemma soft_not_reached:
  assumes "z \<le> of_int n" and "date_minus_timedelta d (round_double z) = Inr t"
    and "today < d - n"
  shows "today < t"
proof -
  have "\<lceil>z\<rceil> \<le> n" using assms(1) by (simp add: ceiling_le_iff)
  with soft_threshold_bounds(1)[OF assms(2)] assms(3) show ?thesis by linarith
qed

lemma soft_warnings_unreachable:
  assumes "c \<le> 1" and "0 \<le> days_for_completion task"
    and "get_warnings_list c today task = Inr ws"
  shows "start_soft \<notin> warning_type ` set ws \<and> finish_soft \<notin> warning_type ` set ws"
proof -
  have le: "of_int n * c \<le> of_int n" if "0 \<le> n" for n :: int
    using that assms(1) by (simp add: mult_left_le)
  from get_warnings_list_Inr[OF assms(3)] obtain sw where
    sw: "status_warnings c today task = Inr sw" and
    ws: "ws = sw @ (if today > deadline task
                    then [\<lparr>warning_type = late_deadline, warning_task_id = ident task\<rparr>]
                    else [])"
    by blast
  have "start_soft \<notin> warning_type ` set sw \<and> finish_soft \<notin> warning_type ` set sw"
  proof (cases "status task")
    case to_do
    from sw[unfolded status_warnings_to_do[OF to_do]] show ?thesis
    proof (cases rule: branch_cases)
      case (soft t)
      with soft_not_reached[OF le[OF assms(2)] soft(2,1)] show ?thesis by simp
    qed simp_all
  next
    case in_progress
    with sw obtain start where s: "actual_start_date task = Some start"
      by (cases "actual_start_date task") (simp_all add: status_warnings_def)
    have "0 \<le> max (days_for_completion task - (today - start)) 0" by simp
    note le' = le[OF this]
    from sw[unfolded status_warnings_in_progress[OF in_progress s]] show ?thesis
    proof (cases rule: branch_cases)
      case (soft t)
      with soft_not_reached[OF le' soft(2,1)] show ?thesis by simp
    qed simp_all
  next
    case status_done
    with sw show ?thesis by (simp add: status_warnings_def)
  qed
  with ws show ?thesis by auto
qed

text \<open>The scenarios of the specification, evaluated.\<close>

lemma task_A_day_31:
  "get_warnings_list (1/2) 31 task_A =
     Inr [\<lparr>warning_type = start_hard, warning_task_id = 1\<rparr>,
          \<lparr>warning_type = late_deadline, warning_task_id = 1\<rparr>]"
  by code_simp

lemma task_A_day_20:
  "get_warnings_list (1/2) 20 task_A = Inr [\<lparr>warning_type = start_hard, warning_task_id = 1\<rparr>]"
  by code_simp

lemma task_A_day_16:
  "get_warnings_list (1/2) 16 task_A = Inr []"
  by code_simp

lemma task_A_done_day_31:
  "get_warnings_list (1/2) 31 (task_A\<lparr>status := status_done\<rparr>) =
     Inr [\<lparr>warning_type = late_deadline, warning_task_id = 1\<rparr>]"
  by code_simp



text \<open>
  Claim C2 says that for every task and date \<open>late_deadline\<close> is emitted exactly when
  today is after the deadline. For task B without its start date, on day 21, the
  deadline (day 20) has passed, but the computation raises \<^verbatim>\<open>TypeError\<close> and emits
  nothing.
\<close>

theorem late_deadline_counterexample:
  "get_warnings_list (1/2) 21 (task_B\<lparr>actual_start_date := None\<rparr>) = Inl TypeError
   \<and> deadline (task_B\<lparr>actual_start_date := None\<rparr>) < 21"
  by (simp add: get_warnings_list_def status_warnings_def task_B_def example_task_def)

text \<open>
  Claim C2, amended: for every task and date for which the computation returns a list,
  the list holds \<open>late_deadline\<close> exactly when today is after the deadline, whatever the
  status, and the warning is added after the warnings of the status, which all stay in
  the list. The computation returns a list for every task with status \<open>done\<close>; for the
  other two statuses it returns one when the preconditions of the branch are met: an
  \<open>in_progress\<close> task has its \<^verbatim>\<open>actual_start_date\<close>, the coefficient is not negative,
  and the two thresholds of the branch are dates (not before day 1, the deadline being
  a date). It returns none for an \<open>in_progress\<close> task without \<^verbatim>\<open>actual_start_date\<close>, and
  none when a threshold it computes is not a date.
\<close>

theorem late_deadline_additive:
  "(\<forall>ws. get_warnings_list c today task = Inr ws \<longrightarrow>
      (late_deadline \<in> warning_type ` set ws \<longleftrightarrow> today > deadline task) \<and>
      (\<exists>sw. status_warnings c today task = Inr sw \<and>
            ws = sw @ (if today > deadline task
                       then [\<lparr>warning_type = late_deadline, warning_task_id = ident task\<rparr>]
                       else []))) \<and>
   (status task = status_done \<longrightarrow> (\<exists>ws. get_warnings_list c today task = Inr ws)) \<and>
   (is_date (deadline task) \<and> 0 \<le> c \<and>
    (status task = to_do \<longrightarrow>
       0 \<le> days_for_completion task \<and>
       0 < deadline task - days_for_completion task \<and>
       0 < deadline task - \<lceil>of_int (days_for_completion task) * c\<rceil>) \<and>
    (status task = in_progress \<longrightarrow>
       (\<exists>start. actual_start_date task = Some start \<and>
          0 < deadline task - max (days_for_completion task - (today - start)) 0 \<and>
          0 < deadline task
                - \<lceil>of_int (max (days_for_completion task - (today - start)) 0) * c\<rceil>))
    \<longrightarrow> (\<exists>ws. get_warnings_list c today task = Inr ws))"
proof (intro conjI allI impI)
  fix ws
  assume "get_warnings_list c today task = Inr ws"
  from get_warnings_list_Inr[OF this] obtain sw where
    sw: "status_warnings c today task = Inr sw" and
    ws: "ws = sw @ (if today > deadline task
                    then [\<lparr>warning_type = late_deadline, warning_task_id = ident task\<rparr>]
                    else [])"
    by blast
  from status_warnings_shape[OF sw]
  have "late_deadline \<notin> warning_type ` set sw" by auto
  with ws show "late_deadline \<in> warning_type ` set ws \<longleftrightarrow> today > deadline task"
    by auto
  from sw ws show "\<exists>sw. status_warnings c today task = Inr sw \<and>
            ws = sw @ (if today > deadline task
                       then [\<lparr>warning_type = late_deadline, warning_task_id = ident task\<rparr>]
                       else [])"
    by blast
next
  assume "status task = status_done"
  then show "\<exists>ws. get_warnings_list c today task = Inr ws"
    by (simp add: get_warnings_list_def status_warnings_def)
next
  assume "is_date (deadline task) \<and> 0 \<le> c \<and>
    (status task = to_do \<longrightarrow>
       0 \<le> days_for_completion task \<and>
       0 < deadline task - days_for_completion task \<and>
       0 < deadline task - \<lceil>of_int (days_for_completion task) * c\<rceil>) \<and>
    (status task = in_progress \<longrightarrow>
       (\<exists>start. actual_start_date task = Some start \<and>
          0 < deadline task - max (days_for_completion task - (today - start)) 0 \<and>
          0 < deadline task
                - \<lceil>of_int (max (days_for_completion task - (today - start)) 0) * c\<rceil>))"
  then show "\<exists>ws. get_warnings_list c today task = Inr ws"
    by (intro get_warnings_list_returns) blast+
qed

text \<open>
  On day 31 task A, whose deadline is day 30 and whose thresholds are days 20 and 25,
  gets \<open>start_hard\<close> and \<open>late_deadline\<close> together; the same task with status \<open>done\<close> gets
  \<open>late_deadline\<close> alone.
\<close>

theorem late_deadline_additive_witness:
  "get_warnings_list (1/2) 31 task_A =
     Inr [\<lparr>warning_type = start_hard, warning_task_id = 1\<rparr>,
          \<lparr>warning_type = late_deadline, warning_task_id = 1\<rparr>]
   \<and> late_deadline \<in> warning_type ` set [\<lparr>warning_type = start_hard, warning_task_id = 1\<rparr>,
          \<lparr>warning_type = late_deadline, warning_task_id = 1\<rparr>]
   \<and> deadline task_A < 31
   \<and> status task_A = to_do \<and> is_date (deadline task_A) \<and> (0::rat) \<le> 1/2
   \<and> 0 \<le> days_for_completion task_A
   \<and> 0 < deadline task_A - days_for_completion task_A
   \<and> 0 < deadline task_A - \<lceil>of_int (days_for_completion task_A) * (1/2::rat)\<rceil>
   \<and> status (task_A\<lparr>status := status_done\<rparr>) = status_done
   \<and> get_warnings_list (1/2) 31 (task_A\<lparr>status := status_done\<rparr>) =
     Inr [\<lparr>warning_type = late_deadline, warning_task_id = 1\<rparr>]"
  using late_deadline_additive[of "1/2" 31 task_A] task_A_day_31 task_A_done_day_31
    late_deadline_additive[of "1/2" 31 "task_A\<lparr>status := status_done\<rparr>"]
  by (simp add: task_A_def example_task_def is_date_def)

text \<open>
  Claim C3 says that for every task with status \<open>to_do\<close>, \<open>days_for_completion > 0\<close> and
  a coefficient in \<open>(0, 1]\<close>, \<open>start_hard\<close> is emitted exactly when
  \<open>today \<ge> deadline - days_for_completion\<close>. For a task with the deadline 2025-01-30
  (day 739281) and 1000000 days for completion the planned start is before the first
  date there is: the subtraction raises \<^verbatim>\<open>OverflowError\<close> and nothing is emitted, on a
  day (739000) that is after the planned start.
\<close>

theorem start_warnings_counterexample:
  "status (task_A\<lparr>deadline := 739281, days_for_completion := 1000000\<rparr>) = to_do
   \<and> 0 < days_for_completion (task_A\<lparr>deadline := 739281, days_for_completion := 1000000\<rparr>)
   \<and> deadline (task_A\<lparr>deadline := 739281, days_for_completion := 1000000\<rparr>)
       - days_for_completion (task_A\<lparr>deadline := 739281, days_for_completion := 1000000\<rparr>)
       \<le> 739000
   \<and> get_warnings_list (1/2) 739000 (task_A\<lparr>deadline := 739281, days_for_completion := 1000000\<rparr>)
       = Inl OverflowError"
  by code_simp

text \<open>
  Claim C3, amended: for every task with status \<open>to_do\<close>, \<open>days_for_completion > 0\<close> and
  a coefficient in \<open>(0, 1]\<close> whose planned start \<open>deadline - days_for_completion\<close> is a
  date (it is not before day 1, the deadline being a date), the computation returns a
  list; \<open>start_hard\<close> is emitted exactly when \<open>today \<ge> deadline - days_for_completion\<close>;
  \<open>start_soft\<close> is emitted exactly when that condition is false and
  \<open>today \<ge> deadline - days_for_completion * coefficient\<close>, which with a coefficient of
  at most one is never; and the two are never emitted together. When the planned start
  is before day 1, the computation fails with \<^verbatim>\<open>OverflowError\<close>.
\<close>

theorem start_warnings_to_do:
  assumes "status task = to_do" and "0 < days_for_completion task"
    and "0 < c" and "c \<le> 1" and "is_date (deadline task)"
  shows "(0 < deadline task - days_for_completion task \<longrightarrow>
           (\<exists>ws. get_warnings_list c today task = Inr ws \<and>
              (start_hard \<in> warning_type ` set ws \<longleftrightarrow>
                 today \<ge> deadline task - days_for_completion task) \<and>
              (start_soft \<in> warning_type ` set ws \<longleftrightarrow>
                 \<not> today \<ge> deadline task - days_for_completion task \<and>
                 of_int today \<ge> of_int (deadline task) - of_int (days_for_completion task) * c) \<and>
              \<not> (start_hard \<in> warning_type ` set ws \<and> start_soft \<in> warning_type ` set ws))) \<and>
         (deadline task - days_for_completion task \<le> 0 \<longrightarrow>
            get_warnings_list c today task = Inl OverflowError)"
proof (intro conjI impI)
  let ?n = "days_for_completion task"
  let ?d = "deadline task"
  assume on_calendar: "0 < ?d - ?n"
  have prod: "of_int ?n * c \<le> of_int ?n"
    using assms(2,4) by (simp add: mult_left_le)
  then have "\<lceil>of_int ?n * c\<rceil> \<le> ?n" by (simp add: ceiling_le_iff)
  with on_calendar have "0 < ?d - \<lceil>of_int ?n * c\<rceil>" by linarith
  with assms on_calendar have "\<exists>ws. get_warnings_list c today task = Inr ws"
    by (intro get_warnings_list_returns) simp_all
  then obtain ws where ws: "get_warnings_list c today task = Inr ws" ..
  from get_warnings_list_Inr[OF ws] obtain sw where
    sw: "status_warnings c today task = Inr sw" and
    ws_eq: "ws = sw @ (if today > ?d
                    then [\<lparr>warning_type = late_deadline, warning_task_id = ident task\<rparr>]
                    else [])"
    by blast
  have no_soft: "\<not> (\<not> today \<ge> ?d - ?n \<and> of_int today \<ge> of_int ?d - of_int ?n * c)"
  proof
    assume a: "\<not> today \<ge> ?d - ?n \<and> of_int today \<ge> of_int ?d - of_int ?n * c"
    then have "(of_int ?d :: rat) - of_int ?n \<le> of_int today"
      using prod by linarith
    then have "?d - ?n \<le> today"
      by (simp only: of_int_le_iff flip: of_int_diff)
    with a show False by simp
  qed
  from sw[unfolded status_warnings_to_do[OF assms(1)]]
  have "(start_hard \<in> warning_type ` set sw \<longleftrightarrow> today \<ge> ?d - ?n) \<and>
        start_soft \<notin> warning_type ` set sw"
  proof (cases rule: branch_cases)
    case (soft t)
    with soft_not_reached[OF prod soft(2,1)] show ?thesis by simp
  qed simp_all
  with ws ws_eq no_soft show "\<exists>ws. get_warnings_list c today task = Inr ws \<and>
              (start_hard \<in> warning_type ` set ws \<longleftrightarrow> today \<ge> ?d - ?n) \<and>
              (start_soft \<in> warning_type ` set ws \<longleftrightarrow>
                 \<not> today \<ge> ?d - ?n \<and> of_int today \<ge> of_int ?d - of_int ?n * c) \<and>
              \<not> (start_hard \<in> warning_type ` set ws \<and> start_soft \<in> warning_type ` set ws)"
    by auto
next
  assume "deadline task - days_for_completion task \<le> 0"
  from hard_threshold_fails[OF assms(5) this] show "get_warnings_list c today task = Inl OverflowError"
    by (simp add: get_warnings_list_def status_warnings_to_do[OF assms(1)])
qed

text \<open>
  Task A with the coefficient \<open>1/2\<close>: on day 20, the planned start, \<open>start_hard\<close> is
  emitted; on day 16 nothing is.
\<close>

theorem start_warnings_to_do_witness:
  "status task_A = to_do \<and> 0 < days_for_completion task_A \<and> (0::rat) < 1/2 \<and> (1/2::rat) \<le> 1
   \<and> is_date (deadline task_A) \<and> 0 < deadline task_A - days_for_completion task_A
   \<and> get_warnings_list (1/2) 20 task_A = Inr [\<lparr>warning_type = start_hard, warning_task_id = 1\<rparr>]
   \<and> get_warnings_list (1/2) 16 task_A = Inr []"
  using start_warnings_to_do[of task_A "1/2" 20] start_warnings_to_do[of task_A "1/2" 16]
    task_A_day_20 task_A_day_16
  by (simp add: task_A_def example_task_def is_date_def)




text \<open>
  Claim C9: for every task with status \<open>in_progress\<close> whose \<^verbatim>\<open>actual_start_date\<close> is
  unset, the warning computation returns no list: it fails (with \<^verbatim>\<open>TypeError\<close>, raised
  by the subtraction of \<^verbatim>\<open>None\<close> from a date), and no date is put in its place.
\<close>

theorem in_progress_without_start_fails:
  assumes "status task = in_progress" and "actual_start_date task = None"
  shows "get_warnings_list c today task = Inl TypeError"
  using assms by (simp add: get_warnings_list_def status_warnings_def)

text \<open>Task B without its start date.\<close>

theorem in_progress_without_start_fails_witness:
  "status (task_B\<lparr>actual_start_date := None\<rparr>) = in_progress
   \<and> actual_start_date (task_B\<lparr>actual_start_date := None\<rparr>) = None
   \<and> get_warnings_list (1/2) 16 (task_B\<lparr>actual_start_date := None\<rparr>) = Inl TypeError"
  using in_progress_without_start_fails[of "task_B\<lparr>actual_start_date := None\<rparr>" "1/2" 16]
  by (simp add: task_B_def example_task_def)

text \<open>
  Claim C10: a list the computation returns holds at most two warnings: at most one
  warning of the status, which is one of \<open>start_soft\<close>, \<open>start_hard\<close>, \<open>finish_soft\<close>
  and \<open>finish_hard\<close>, followed by at most one \<open>late_deadline\<close>, and nothing else; and
  every warning carries the id of the task. The computation returns a list when the
  preconditions of the task's branch are met: an \<open>in_progress\<close> task has its
  \<^verbatim>\<open>actual_start_date\<close>, the coefficient is not negative, and the two thresholds of the
  branch are dates (not before day 1, the deadline being a date).
\<close>

theorem warnings_at_most_two:
  "(\<forall>ws. get_warnings_list c today task = Inr ws \<longrightarrow>
      (\<exists>sw lw. ws = sw @ lw \<and>
         (sw = [] \<or> (\<exists>ty \<in> {start_soft, start_hard, finish_soft, finish_hard}.
                       sw = [\<lparr>warning_type = ty, warning_task_id = ident task\<rparr>])) \<and>
         (lw = [] \<or> lw = [\<lparr>warning_type = late_deadline, warning_task_id = ident task\<rparr>])) \<and>
      length ws \<le> 2 \<and>
      (\<forall>w \<in> set ws. warning_task_id w = ident task)) \<and>
   (is_date (deadline task) \<and> 0 \<le> c \<and>
    (status task = to_do \<longrightarrow>
       0 \<le> days_for_completion task \<and>
       0 < deadline task - days_for_completion task \<and>
       0 < deadline task - \<lceil>of_int (days_for_completion task) * c\<rceil>) \<and>
    (status task = in_progress \<longrightarrow>
       (\<exists>start. actual_start_date task = Some start \<and>
          0 < deadline task - max (days_for_completion task - (today - start)) 0 \<and>
          0 < deadline task
                - \<lceil>of_int (max (days_for_completion task - (today - start)) 0) * c\<rceil>))
    \<longrightarrow> (\<exists>ws. get_warnings_list c today task = Inr ws))"
proof (intro conjI allI impI)
  fix ws
  assume ws: "get_warnings_list c today task = Inr ws"
  from get_warnings_list_Inr[OF ws] obtain sw where
    sw: "status_warnings c today task = Inr sw" and
    ws_eq: "ws = sw @ (if today > deadline task
                    then [\<lparr>warning_type = late_deadline, warning_task_id = ident task\<rparr>]
                    else [])"
    by blast
  note shape = status_warnings_shape[OF sw]
  from shape ws_eq
  show "\<exists>sw lw. ws = sw @ lw \<and>
         (sw = [] \<or> (\<exists>ty \<in> {start_soft, start_hard, finish_soft, finish_hard}.
                       sw = [\<lparr>warning_type = ty, warning_task_id = ident task\<rparr>])) \<and>
         (lw = [] \<or> lw = [\<lparr>warning_type = late_deadline, warning_task_id = ident task\<rparr>])"
    by (intro exI[of _ sw] exI[of _ "if today > deadline task
                    then [\<lparr>warning_type = late_deadline, warning_task_id = ident task\<rparr>]
                    else []"]) simp
  from shape ws_eq show "length ws \<le> 2" by auto
  from shape ws_eq show "\<forall>w \<in> set ws. warning_task_id w = ident task" by auto
next
  assume "is_date (deadline task) \<and> 0 \<le> c \<and>
    (status task = to_do \<longrightarrow>
       0 \<le> days_for_completion task \<and>
       0 < deadline task - days_for_completion task \<and>
       0 < deadline task - \<lceil>of_int (days_for_completion task) * c\<rceil>) \<and>
    (status task = in_progress \<longrightarrow>
       (\<exists>start. actual_start_date task = Some start \<and>
          0 < deadline task - max (days_for_completion task - (today - start)) 0 \<and>
          0 < deadline task
                - \<lceil>of_int (max (days_for_completion task - (today - start)) 0) * c\<rceil>))"
  then show "\<exists>ws. get_warnings_list c today task = Inr ws"
    by (intro get_warnings_list_returns) blast+
qed

text \<open>
  Task A on day 31: its branch's thresholds are days 20 and 25, and the list is
  \<open>start_hard\<close> followed by \<open>late_deadline\<close>.
\<close>

theorem warnings_at_most_two_witness:
  "status task_A = to_do \<and> is_date (deadline task_A) \<and> (0::rat) \<le> 1/2
   \<and> 0 \<le> days_for_completion task_A
   \<and> 0 < deadline task_A - days_for_completion task_A
   \<and> 0 < deadline task_A - \<lceil>of_int (days_for_completion task_A) * (1/2::rat)\<rceil>
   \<and> get_warnings_list (1/2) 31 task_A =
     Inr ([\<lparr>warning_type = start_hard, warning_task_id = ident task_A\<rparr>]
          @ [\<lparr>warning_type = late_deadline, warning_task_id = ident task_A\<rparr>])"
  using warnings_at_most_two[of "1/2" 31 task_A] task_A_day_31
  by (simp add: task_A_def example_task_def is_date_def)

section \<open>Properties of the repository\<close>

text \<open>
  Claim C5: after a call of the update of the actual dates for an existing task, the
  call returns \<^verbatim>\<open>True\<close> and the task's row holds the two dates as given; if both are set,
  its \<^verbatim>\<open>actual_completion_days\<close> is \<open>(finish - start) + 1\<close>, and if either is unset, it
  is unset: the stored day count is the inclusive day count of the stored dates.
\<close>

theorem update_dates_completion_days:
  assumes "tid \<in> ident ` set db"
  shows "fst (update_task_start_finish_dates db tid new_start new_finish) = True \<and>
         tid \<in> ident ` set (snd (update_task_start_finish_dates db tid new_start new_finish)) \<and>
         (\<forall>t \<in> set (snd (update_task_start_finish_dates db tid new_start new_finish)).
            ident t = tid \<longrightarrow>
              actual_start_date t = new_start \<and> actual_finish_date t = new_finish \<and>
              (\<forall>start finish. new_start = Some start \<and> new_finish = Some finish \<longrightarrow>
                 actual_completion_days t = Some ((finish - start) + 1)) \<and>
              (new_start = None \<or> new_finish = None \<longrightarrow> actual_completion_days t = None) \<and>
              actual_completion_days t =
                (case (actual_start_date t, actual_finish_date t) of
                   (Some start, Some finish) \<Rightarrow> Some ((finish - start) + 1)
                 | _ \<Rightarrow> None))"
proof -
  let ?r = "update_task_start_finish_dates db tid new_start new_finish"
  have found: "filter (\<lambda>t. ident t = tid) db \<noteq> []"
    using assms by (auto simp: filter_empty_conv)
  then have 1: "fst ?r = True"
    by (simp add: update_task_start_finish_dates_def Let_def)
  have "map ident (snd ?r) = map ident db"
    by (simp add: update_task_start_finish_dates_def Let_def)
  then have "ident ` set (snd ?r) = ident ` set db"
    by (metis set_map)
  then have 2: "tid \<in> ident ` set (snd ?r)"
    using assms by simp
  have 3: "actual_start_date t = new_start \<and> actual_finish_date t = new_finish \<and>
           (\<forall>start finish. new_start = Some start \<and> new_finish = Some finish \<longrightarrow>
              actual_completion_days t = Some ((finish - start) + 1)) \<and>
           (new_start = None \<or> new_finish = None \<longrightarrow> actual_completion_days t = None) \<and>
           actual_completion_days t =
             (case (actual_start_date t, actual_finish_date t) of
                (Some start, Some finish) \<Rightarrow> Some ((finish - start) + 1)
              | _ \<Rightarrow> None)"
    if "t \<in> set (snd ?r)" and "ident t = tid" for t
  proof -
    from that(1) obtain u where "u \<in> set db" and
      t: "t = (if ident u = tid
               then u\<lparr>actual_start_date := new_start, actual_finish_date := new_finish,
                      actual_completion_days :=
                        (case (new_start, new_finish) of
                           (Some start, Some finish) \<Rightarrow> Some ((finish - start) + 1)
                         | _ \<Rightarrow> None)\<rparr>
               else u)"
      by (auto simp: update_task_start_finish_dates_def Let_def)
    from that(2) t have "ident u = tid"
      by (simp split: if_splits)
    with t show ?thesis
      by (auto split: option.splits)
  qed
  from 1 2 3 show ?thesis
    by blast
qed

theorem update_dates_completion_days_witness:
  "(1::int) \<in> ident ` set [task_A, task_B] \<and>
   update_task_start_finish_dates [task_A, task_B] 1 (Some 18) (Some 27) =
     (True, [task_A\<lparr>actual_start_date := Some 18, actual_finish_date := Some 27,
                    actual_completion_days := Some 10\<rparr>, task_B]) \<and>
   update_task_start_finish_dates [task_A, task_B] 2 (Some 18) None =
     (True, [task_A, task_B\<lparr>actual_start_date := Some 18, actual_finish_date := None,
                    actual_completion_days := None\<rparr>])"
  using update_dates_completion_days[of 1 "[task_A, task_B]" "Some 18" "Some 27"]
  by (simp add: update_task_start_finish_dates_def task_A_def task_B_def example_task_def)

text \<open>
  Claim C6: adding an edge that is present leaves the table as it is (no error, the
  same number of edges); adding an absent edge adds exactly that edge; so adding the
  same edge a second time changes nothing.
\<close>

theorem add_task_depends_idempotent:
  "((id', depends_id) \<in> edges db \<longrightarrow>
      add_task_depends now db id' depends_id = db \<and>
      card (edges (add_task_depends now db id' depends_id)) = card (edges db)) \<and>
   ((id', depends_id) \<notin> edges db \<longrightarrow>
      add_task_depends now db id' depends_id =
        db @ [\<lparr>task_id = id', depends_task_id = depends_id, depends_created_timestamp = now\<rparr>] \<and>
      edges (add_task_depends now db id' depends_id) = insert (id', depends_id) (edges db) \<and>
      card (edges (add_task_depends now db id' depends_id)) = Suc (card (edges db))) \<and>
   add_task_depends now' (add_task_depends now db id' depends_id) id' depends_id =
     add_task_depends now db id' depends_id"
  by (auto simp: add_task_depends_def edges_def edge_of_def)

theorem add_task_depends_idempotent_witness:
  "(1, 2) \<notin> edges [] \<and>
   add_task_depends 7 [] 1 2 = [\<lparr>task_id = 1, depends_task_id = 2, depends_created_timestamp = 7\<rparr>] \<and>
   (1, 2) \<in> edges (add_task_depends 7 [] 1 2) \<and>
   add_task_depends 9 (add_task_depends 7 [] 1 2) 1 2 = add_task_depends 7 [] 1 2"
  using add_task_depends_idempotent[of 1 2 "[]" 7 9]
  by (simp add: add_task_depends_def edges_def edge_of_def)

text \<open>
  Claim C7: removing a present edge returns \<^verbatim>\<open>True\<close> and deletes the rows of exactly that
  edge; removing an absent edge returns \<^verbatim>\<open>False\<close> and leaves the table as it is.
\<close>

theorem del_tasks_depends_result:
  "((id', depends_id) \<in> edges db \<longrightarrow>
      fst (del_tasks_depends db id' depends_id) = True \<and>
      snd (del_tasks_depends db id' depends_id) = filter (\<lambda>r. edge_of r \<noteq> (id', depends_id)) db \<and>
      edges (snd (del_tasks_depends db id' depends_id)) = edges db - {(id', depends_id)}) \<and>
   ((id', depends_id) \<notin> edges db \<longrightarrow>
      del_tasks_depends db id' depends_id = (False, db))"
proof -
  have eq: "(\<lambda>r. \<not> (task_id r = id' \<and> depends_task_id r = depends_id)) = (\<lambda>r. edge_of r \<noteq> (id', depends_id))"
    by (auto simp: edge_of_def)
  have absent: "filter (\<lambda>r. edge_of r \<noteq> (id', depends_id)) db = db" if "(id', depends_id) \<notin> edges db"
    using that by (force simp: edges_def filter_id_conv)
  have empty: "(filter (\<lambda>r. task_id r = id' \<and> depends_task_id r = depends_id) db = []) = ((id', depends_id) \<notin> edges db)"
    by (auto simp: filter_empty_conv edges_def edge_of_def image_iff)
  have removed: "edges (filter (\<lambda>r. edge_of r \<noteq> (id', depends_id)) db) = edges db - {(id', depends_id)}"
    unfolding edges_def by (induction db) auto
  show ?thesis
    unfolding del_tasks_depends_def Let_def eq empty
    using absent removed by simp
qed

theorem del_tasks_depends_result_witness:
  "(1, 2) \<in> edges (add_task_depends 7 (add_task_depends 6 [] 3 4) 1 2) \<and>
   del_tasks_depends (add_task_depends 7 (add_task_depends 6 [] 3 4) 1 2) 1 2
     = (True, add_task_depends 6 [] 3 4) \<and>
   (1, 2) \<notin> edges (add_task_depends 6 [] 3 4) \<and>
   del_tasks_depends (add_task_depends 6 [] 3 4) 1 2 = (False, add_task_depends 6 [] 3 4)"
  using del_tasks_depends_result[of 1 2 "add_task_depends 7 (add_task_depends 6 [] 3 4) 1 2"]
    del_tasks_depends_result[of 1 2 "add_task_depends 6 [] 3 4"]
  by (simp add: del_tasks_depends_def add_task_depends_def edges_def edge_of_def)

lemma filter_unique:
  assumes "distinct (map f xs)" and "x \<in> set xs"
  shows "filter (\<lambda>y. f y = f x) xs = [x]"
  using assms
proof (induction xs)
  case Nil
  then show ?case by simp
next
  case (Cons a xs)
  show ?case
  proof (cases "a = x")
    case True
    have "filter (\<lambda>y. f y = f x) xs = []"
      using Cons.prems(1) True by (auto simp: filter_empty_conv image_iff)
    then show ?thesis using True by simp
  next
    case False
    then have "x \<in> set xs" using Cons.prems(2) by simp
    moreover have "f a \<noteq> f x" using Cons.prems(1) \<open>x \<in> set xs\<close> by auto
    ultimately show ?thesis using Cons by simp
  qed
qed

lemma self_rows:
  "filter (\<lambda>r. dependency_type r = self) (get_all_task_dependencies task task_depends tid)
   = sort_key twd_deadline (remdups (map (select_task self) (filter (\<lambda>t. ident t = tid) task)))"
proof -
  have 1: "filter (\<lambda>r. dependency_type r = self)
             [select_task depends_of t. d \<leftarrow> task_depends, t \<leftarrow> task,
                task_id d = ident t, depends_task_id d = tid] = []"
    by (auto simp: filter_empty_conv select_task_def)
  have 2: "filter (\<lambda>r. dependency_type r = self)
             [select_task dependent_for t. d \<leftarrow> task_depends, t \<leftarrow> task,
                depends_task_id d = ident t, task_id d = tid] = []"
    by (auto simp: filter_empty_conv select_task_def)
  have 3: "filter (\<lambda>r. dependency_type r = self) [select_task self t. t \<leftarrow> task, ident t = tid]
             = map (select_task self) (filter (\<lambda>t. ident t = tid) task)"
    by (induction task) (auto simp: select_task_def)
  show ?thesis
    unfolding get_all_task_dependencies_def filter_sort
    by (simp only: remdups_filter[symmetric] filter_append 1 2 3 append_Nil)
qed

text \<open>
  Claim C8: for every task \<open>t\<close> of the table, the relations of \<open>ident t\<close> hold exactly one
  row of category \<open>self\<close>, the row of \<open>t\<close>, and the whole result is sorted by deadline.
  The task table has \<^verbatim>\<open>id\<close> as its key: no two rows share one.
\<close>

theorem all_relations_self_once:
  assumes "distinct (map ident task)" and "t \<in> set task"
  shows "filter (\<lambda>r. dependency_type r = self)
           (get_all_task_dependencies task task_depends (ident t)) = [select_task self t]
       \<and> sorted (map twd_deadline (get_all_task_dependencies task task_depends (ident t)))"
proof -
  have "filter (\<lambda>u. ident u = ident t) task = [t]"
    using assms by (rule filter_unique)
  then show ?thesis
    by (simp add: self_rows) (simp add: get_all_task_dependencies_def)
qed

theorem all_relations_self_once_witness:
  "distinct (map ident [task_A, task_B, example_task 3 status_done 25]) \<and>
   task_A \<in> set [task_A, task_B, example_task 3 status_done 25] \<and>
   get_all_task_dependencies [task_A, task_B, example_task 3 status_done 25]
     (add_task_depends 7 (add_task_depends 6 (add_task_depends 5 [] 1 3) 2 1) 1 1) (ident task_A)
   = [select_task depends_of task_B, select_task dependent_for (example_task 3 status_done 25),
      select_task depends_of task_A, select_task dependent_for task_A, select_task self task_A]"
  using all_relations_self_once[of "[task_A, task_B, example_task 3 status_done 25]" task_A
      "add_task_depends 7 (add_task_depends 6 (add_task_depends 5 [] 1 3) 2 1) 1 1"]
  by (simp add: get_all_task_dependencies_def add_task_depends_def edges_def edge_of_def
      select_task_def task_A_def task_B_def example_task_def)

section \<open>Properties of the dashboard view\<close>

lemma group_tasks_None:
  assumes "group_tasks g c today ts st = Inr st'"
  shows "map_of st' s = None \<longleftrightarrow> map_of st s = None \<and> (\<forall>t \<in> set ts. status t \<noteq> s)"
  using assms
proof (induction ts arbitrary: st)
  case Nil
  then show ?case by simp
next
  case (Cons t ts)
  from Cons.prems obtain ws where ws: "get_warnings_list c today t = Inr ws"
    by (auto simp: Let_def split: sum.splits)
  show ?case
  proof (cases "map_of st (status t)")
    case None
    with Cons.prems ws have "group_tasks g c today ts (AList.update (status t)
        [\<lparr>dashboard_task_id = ident t, dashboard_task_title = title t,
          dashboard_task_deadline = deadline t,
          dashboard_task_responsible = g (responsible_user_id t),
          dashboard_task_warnings = ws\<rparr>] st) = Inr st'"
      by (simp add: Let_def)
    from Cons.IH[OF this] None show ?thesis
      by (auto simp: update_conv')
  next
    case (Some l)
    with Cons.prems ws have "group_tasks g c today ts (AList.update (status t)
        (l @ [\<lparr>dashboard_task_id = ident t, dashboard_task_title = title t,
          dashboard_task_deadline = deadline t,
          dashboard_task_responsible = g (responsible_user_id t),
          dashboard_task_warnings = ws\<rparr>]) st) = Inr st'"
      by (simp add: Let_def)
    from Cons.IH[OF this] Some show ?thesis
      by (auto simp: update_conv')
  qed
qed

lemma group_tasks_length:
  assumes "group_tasks g c today ts st = Inr st'"
  shows "length (case map_of st' s of None \<Rightarrow> [] | Some l \<Rightarrow> l) =
         length (case map_of st s of None \<Rightarrow> [] | Some l \<Rightarrow> l) +
         length (filter (\<lambda>t. status t = s) ts)"
  using assms
proof (induction ts arbitrary: st)
  case Nil
  then show ?case by simp
next
  case (Cons t ts)
  from Cons.prems obtain ws where ws: "get_warnings_list c today t = Inr ws"
    by (auto simp: Let_def split: sum.splits)
  show ?case
  proof (cases "map_of st (status t)")
    case None
    with Cons.prems ws have "group_tasks g c today ts (AList.update (status t)
        [\<lparr>dashboard_task_id = ident t, dashboard_task_title = title t,
          dashboard_task_deadline = deadline t,
          dashboard_task_responsible = g (responsible_user_id t),
          dashboard_task_warnings = ws\<rparr>] st) = Inr st'"
      by (simp add: Let_def)
    from Cons.IH[OF this] None show ?thesis
      by (auto simp: update_conv')
  next
    case (Some l)
    with Cons.prems ws have "group_tasks g c today ts (AList.update (status t)
        (l @ [\<lparr>dashboard_task_id = ident t, dashboard_task_title = title t,
          dashboard_task_deadline = deadline t,
          dashboard_task_responsible = g (responsible_user_id t),
          dashboard_task_warnings = ws\<rparr>]) st) = Inr st'"
      by (simp add: Let_def)
    from Cons.IH[OF this] Some show ?thesis
      by (auto simp: update_conv')
  qed
qed

text \<open>The loop returns when the warnings of every task can be computed.\<close>

lemma group_tasks_returns:
  assumes "\<forall>t \<in> set ts. \<exists>ws. get_warnings_list c today t = Inr ws"
  shows "\<exists>st'. group_tasks g c today ts st = Inr st'"
  using assms
proof (induction ts arbitrary: st)
  case Nil
  then show ?case by simp
next
  case (Cons t ts)
  then obtain ws where "get_warnings_list c today t = Inr ws" by auto
  then show ?case
    using Cons by (simp add: Let_def)
qed

text \<open>
  When the view returns, its progress is the share of done tasks among the tasks that
  are not archived, computed in floating point: the quotient rounded, its product with
  100 rounded, and the floor of that.
\<close>

lemma get_dashboard_tasks_progress:
  assumes "get_dashboard_tasks g c today db = Inr r"
  shows "progress r =
           \<lfloor>round_double
              (round_double
                 (of_nat (length (filter (\<lambda>t. \<not> is_archived t \<and> status t = status_done) db))
                  / of_nat (length (filter (\<lambda>t. \<not> is_archived t) db)))
               * 100)\<rfloor>"
proof -
  let ?tasks = "get_tasks_ordered_by_deadline db"
  from assms obtain st l where
    st: "group_tasks g c today ?tasks [] = Inr st" and
    l: "map_of st status_done = Some l" and
    r: "progress r =
          \<lfloor>round_double (round_double (of_nat (length l) / of_nat (length ?tasks)) * 100)\<rfloor>"
    by (auto simp: get_dashboard_tasks_def Let_def split: sum.splits option.splits if_splits)
  have "length l = length (filter (\<lambda>t. status t = status_done) ?tasks)"
    using group_tasks_length[OF st, of status_done] l by simp
  also have "\<dots> = length (filter (\<lambda>t. \<not> is_archived t \<and> status t = status_done) db)"
    by (simp add: get_tasks_ordered_by_deadline_def filter_sort conj_commute)
  finally have "length l = length (filter (\<lambda>t. \<not> is_archived t \<and> status t = status_done) db)" .
  moreover have "length ?tasks = length (filter (\<lambda>t. \<not> is_archived t) db)"
    by (simp add: get_tasks_ordered_by_deadline_def)
  ultimately show ?thesis
    using r by simp
qed

text \<open>
  The rounding shows in the result: for 29 done tasks of 50 the progress is 57, one less
  than the floor of the exact share, 58.
\<close>

lemma progress_29_of_50:
  "\<lfloor>round_double (round_double (of_nat 29 / of_nat 50) * 100)\<rfloor> = 57"
  by code_simp

text \<open>
  The view returns when every task's warnings can be computed and at least one task
  that is not archived is done.
\<close>

lemma get_dashboard_tasks_returns:
  assumes "\<forall>t \<in> set db. \<not> is_archived t \<longrightarrow> (\<exists>ws. get_warnings_list c today t = Inr ws)"
    and "\<exists>t \<in> set db. \<not> is_archived t \<and> status t = status_done"
  shows "\<exists>r. get_dashboard_tasks g c today db = Inr r"
proof -
  let ?tasks = "get_tasks_ordered_by_deadline db"
  have set: "set ?tasks = {t \<in> set db. \<not> is_archived t}"
    by (simp add: get_tasks_ordered_by_deadline_def)
  then have "\<forall>t \<in> set ?tasks. \<exists>ws. get_warnings_list c today t = Inr ws"
    using assms(1) by simp
  from group_tasks_returns[OF this]
  obtain st where st: "group_tasks g c today ?tasks [] = Inr st" by blast
  have "map_of st status_done \<noteq> None"
    using group_tasks_None[OF st, of status_done] assms(2) set by auto
  moreover have "?tasks \<noteq> []"
    using assms(2) set by auto
  ultimately show ?thesis
    using st by (auto simp: get_dashboard_tasks_def Let_def)
qed

text \<open>Without a done task among the tasks that are not archived the view fails.\<close>

lemma get_dashboard_tasks_no_done:
  assumes "\<forall>t \<in> set db. \<not> is_archived t \<longrightarrow> status t \<noteq> status_done"
  shows "\<exists>e. get_dashboard_tasks g c today db = Inl e"
proof (cases "group_tasks g c today (get_tasks_ordered_by_deadline db) []")
  case (Inl e)
  then show ?thesis
    by (simp add: get_dashboard_tasks_def)
next
  case (Inr st)
  have "set (get_tasks_ordered_by_deadline db) = {t \<in> set db. \<not> is_archived t}"
    by (simp add: get_tasks_ordered_by_deadline_def)
  with assms have "map_of st status_done = None"
    using group_tasks_None[OF Inr, of status_done] by auto
  with Inr show ?thesis
    by (simp add: get_dashboard_tasks_def)
qed

text \<open>
  Claim C1 says that the progress is \<open>\<lfloor>done / all * 100\<rfloor>\<close> for every non-empty list of
  tasks and \<open>0\<close> for the empty one. The view does not return it where no task is done:
  \<^verbatim>\<open>statuses[TaskStatusEnum.done]\<close> raises \<^verbatim>\<open>KeyError\<close>, for the empty table and for the
  table that holds task A alone.
\<close>

theorem dashboard_without_done_task_fails:
  "get_dashboard_tasks (\<lambda>_. None :: unit option) (1/2) 5 [] = Inl KeyError \<and>
   get_dashboard_tasks (\<lambda>_. None :: unit option) (1/2) 5 [task_A] = Inl KeyError"
  by code_simp

text \<open>Four tasks, one of them done: the progress is 25.\<close>

lemma dashboard_progress_one_of_four:
  "map_sum id progress
     (get_dashboard_tasks (\<lambda>_. None :: unit option) (1/2) 5
        [task_A, example_task 3 to_do 40, example_task 4 status_done 7, task_B])
   = Inr 25"
  by code_simp

lemma dashboard_one_of_four_done:
  "\<exists>r. get_dashboard_tasks (\<lambda>_. None :: unit option) (1/2) 5
          [task_A, example_task 3 to_do 40, example_task 4 status_done 7, task_B] = Inr r
        \<and> progress r = 25"
  using dashboard_progress_one_of_four
  by (cases "get_dashboard_tasks (\<lambda>_. None :: unit option) (1/2) 5
          [task_A, example_task 3 to_do 40, example_task 4 status_done 7, task_B]") simp_all

end
